theory Spec2Isabelle
  imports Complex_Main "HOL-Library.Stream"
begin

section \<open>Data model of simple\_MPU6050\_and\_Buzzer.cpp\<close>

text \<open>
  \<^verbatim>\<open>struct note { int pitch; int octave; int duration; };\<close>
  The fields are C++ \<^verbatim>\<open>int\<close>s. They are modelled as unbounded integers: from a
  pitch in 0..7 and an octave in 0..5 every intermediate value of the selectors lies
  between -5 and 12 (lemmas \<open>melodyPitchWalk_bounds\<close>, \<open>playNote_valid\<close>), far from the
  ends of a 32-bit integer, so no arithmetic of the source wraps on a reachable state.
\<close>

record struct_note =
  pitch :: int
  octave :: int
  duration :: int

text \<open>
  The magnitudes \<^verbatim>\<open>totalAcc\<close> and \<^verbatim>\<open>totalSpin\<close> are C++ \<^verbatim>\<open>float\<close>s. A float is a
  real number, an infinity or a NaN; the source only compares them with the constants
  0.5, 0.75, 3 and 4, which binary floating point represents exactly, so each comparison
  is the comparison of the reals, and false whenever the float is a NaN.
\<close>

datatype cfloat = Finite real | PosInf | NegInf | NaN

fun float_lt :: "cfloat \<Rightarrow> real \<Rightarrow> bool" where
  "float_lt (Finite x) c = (x < c)"
| "float_lt PosInf c = False"
| "float_lt NegInf c = True"
| "float_lt NaN c = False"

fun float_gt :: "cfloat \<Rightarrow> real \<Rightarrow> bool" where
  "float_gt (Finite x) c = (x > c)"
| "float_gt PosInf c = True"
| "float_gt NegInf c = False"
| "float_gt NaN c = False"

fun float_ge :: "cfloat \<Rightarrow> real \<Rightarrow> bool" where
  "float_ge (Finite x) c = (x \<ge> c)"
| "float_ge PosInf c = True"
| "float_ge NegInf c = False"
| "float_ge NaN c = False"

text \<open>
  The global state of the sketch: the two voices
  \<^verbatim>\<open>struct note melodyCurrentNote = {0, 3, 0}; struct note bassCurrentNote = {0, 0, 0};\<close>
  and the state of the pseudo-random generator behind \<^verbatim>\<open>random\<close>, made explicit as
  the stream of raw numbers it is going to produce.
\<close>

record state =
  melodyCurrentNote :: struct_note
  bassCurrentNote :: struct_note
  rng :: "nat stream"

definition initial_state :: "nat stream \<Rightarrow> state" where
  "initial_state g =
     \<lparr> melodyCurrentNote = \<lparr> pitch = 0, octave = 3, duration = 0 \<rparr>,
       bassCurrentNote = \<lparr> pitch = 0, octave = 0, duration = 0 \<rparr>,
       rng = g \<rparr>"

text \<open>
  Modelled from the spec: \<^verbatim>\<open>random(min, max)\<close> belongs to the Arduino core, which is
  not among the sources. It returns \<^verbatim>\<open>min\<close> when \<^verbatim>\<open>min >= max\<close> and otherwise a number
  from \<^verbatim>\<open>min\<close> to \<^verbatim>\<open>max - 1\<close> (the upper bound is exclusive), obtained by reducing
  the next raw number of the generator into the width of the range.
\<close>

definition arduino_random :: "int \<Rightarrow> int \<Rightarrow> nat stream \<Rightarrow> int \<times> nat stream" where
  "arduino_random howsmall howbig g =
     (if howsmall \<ge> howbig then (howsmall, g)
      else (int (shd g) mod (howbig - howsmall) + howsmall, stl g))"

section \<open>The duration selector\<close>

definition noteDuration :: "int list" where
  "noteDuration = [125, 125, 125, 125, 125, 125, 125, 125, 250, 250, 250, 250,
                   500, 500, 500, 500, 1000, 1000, 1000, 1500]"

text \<open>
  Reading \<^verbatim>\<open>noteDuration[i]\<close>. Outside the 20 entries the C++ read is undefined; the
  model answers \<open>None\<close> there.
\<close>

definition noteDuration_at :: "int \<Rightarrow> int option" where
  "noteDuration_at i =
     (if 0 \<le> i \<and> i < int (length noteDuration) then Some (noteDuration ! nat i) else None)"

text \<open>
  The index expression of each \<^verbatim>\<open>return\<close> of \<^verbatim>\<open>defineNoteDuration\<close>:
  \<^verbatim>\<open>random(18, 19)\<close>, \<^verbatim>\<open>random(10, 18)\<close> or \<^verbatim>\<open>random(0, 10)\<close>.
\<close>

definition durationIndex :: "cfloat \<Rightarrow> nat stream \<Rightarrow> int \<times> nat stream" where
  "durationIndex totalAcc g =
     (if float_gt totalAcc 0.5 \<and> float_lt totalAcc 0.75 then arduino_random 18 19 g
      else if float_gt totalAcc 0.75 \<and> float_lt totalAcc 3 then arduino_random 10 18 g
      else arduino_random 0 10 g)"

definition defineNoteDuration :: "cfloat \<Rightarrow> nat stream \<Rightarrow> (int \<times> nat stream) option" where
  "defineNoteDuration totalAcc g =
     (case durationIndex totalAcc g of
        (i, g') \<Rightarrow> (case noteDuration_at i of None \<Rightarrow> None | Some d \<Rightarrow> Some (d, g')))"

section \<open>The melody selector\<close>

text \<open>Lines 73 to 77 of \<^verbatim>\<open>defineMelodyNote\<close>: the octave walk and its wrap.\<close>

definition melodyOctaveWalk :: "cfloat \<Rightarrow> int \<Rightarrow> int" where
  "melodyOctaveWalk totalAcc octave0 =
     (let o1 = (if float_lt totalAcc 3 then octave0 - 1 else octave0);
          o2 = (if float_ge totalAcc 3 then o1 + 1 else o1);
          o3 = (if o2 < 0 then 5 else o2)
      in if o3 > 5 then 2 else o3)"

text \<open>Lines 79 and 80: the pitch walk, each branch with its own call of \<^verbatim>\<open>random(0, 6)\<close>.\<close>

definition melodyPitchWalk :: "cfloat \<Rightarrow> int \<Rightarrow> nat stream \<Rightarrow> int \<times> nat stream" where
  "melodyPitchWalk totalSpin pitch0 g =
     (case (if float_lt totalSpin 3
            then (case arduino_random 0 6 g of (r, g') \<Rightarrow> (pitch0 - r, g'))
            else (pitch0, g)) of
        (p1, g1) \<Rightarrow>
          if float_gt totalSpin 4
          then (case arduino_random 0 6 g1 of (r, g') \<Rightarrow> (p1 + r, g'))
          else (p1, g1))"

text \<open>Line 83: \<^verbatim>\<open>while (pitch > 6) pitch -= 3;\<close>\<close>

function pitchWhile :: "int \<Rightarrow> int" where
  "pitchWhile p = (if p > 6 then pitchWhile (p - 3) else p)"
  by pat_completeness auto
termination
  by (relation "measure (\<lambda>p. nat (p - 6))") auto

declare pitchWhile.simps [simp del]

text \<open>Lines 82 and 83: the fold of a negative pitch, then the loop.\<close>

definition pitchClamp :: "int \<Rightarrow> int" where
  "pitchClamp p = pitchWhile (if p < 0 then abs p else p)"

text \<open>Line 85: \<^verbatim>\<open>if(totalAcc < 0.5 || totalSpin < 0.5) pitch = 7;\<close>\<close>

definition silenceOverride :: "cfloat \<Rightarrow> cfloat \<Rightarrow> int \<Rightarrow> int" where
  "silenceOverride totalAcc totalSpin p =
     (if float_lt totalAcc 0.5 \<or> float_lt totalSpin 0.5 then 7 else p)"

definition defineMelodyNote :: "cfloat \<Rightarrow> cfloat \<Rightarrow> state \<Rightarrow> state option" where
  "defineMelodyNote totalAcc totalSpin s =
     (let octave1 = melodyOctaveWalk totalAcc (octave (melodyCurrentNote s)) in
      case melodyPitchWalk totalSpin (pitch (melodyCurrentNote s)) (rng s) of
        (p, g1) \<Rightarrow>
          let pitch1 = silenceOverride totalAcc totalSpin (pitchClamp p) in
          (case defineNoteDuration totalAcc g1 of
             None \<Rightarrow> None
           | Some (d, g2) \<Rightarrow>
               Some (s\<lparr> melodyCurrentNote := \<lparr> pitch = pitch1, octave = octave1, duration = d \<rparr>,
                       rng := g2 \<rparr>)))"

section \<open>The bass selector\<close>

definition harmonics :: "int list list" where
  "harmonics = [[2, 4, 6], [3, 5, 0], [4, 6, 1],
                [5, 0, 2], [6, 1, 3], [0, 2, 4],
                [1, 3, 5], [7, 7, 7]]"

text \<open>
  Reading \<^verbatim>\<open>harmonics[m][i]\<close> of \<^verbatim>\<open>int harmonics[8][3]\<close>; \<open>None\<close> stands for the
  undefined read outside the table.
\<close>

definition harmonics_at :: "int \<Rightarrow> int \<Rightarrow> int option" where
  "harmonics_at m i =
     (if 0 \<le> m \<and> m < 8 \<and> 0 \<le> i \<and> i < 3 then Some (harmonics ! nat m ! nat i) else None)"

text \<open>Lines 99 to 103 of \<^verbatim>\<open>defineBassNote\<close>: the octave walk of the bass and its wrap.\<close>

definition bassOctaveWalk :: "cfloat \<Rightarrow> int \<Rightarrow> int" where
  "bassOctaveWalk totalSpin octave0 =
     (let o1 = (if float_lt totalSpin 3 then octave0 - 1 else octave0);
          o2 = (if float_ge totalSpin 3 then o1 + 1 else o1);
          o3 = (if o2 < 0 then 2 else o2)
      in if o3 > 5 then 0 else o3)"

text \<open>
  Line 105 reads \<^verbatim>\<open>harmonics[melodyCurrentNote.pitch][random(0, 2)]\<close>; the local
  \<^verbatim>\<open>pitch\<close> of the source is never used.
\<close>

definition defineBassNote :: "cfloat \<Rightarrow> cfloat \<Rightarrow> state \<Rightarrow> state option" where
  "defineBassNote totalAcc totalSpin s =
     (let octave1 = bassOctaveWalk totalSpin (octave (bassCurrentNote s)) in
      case arduino_random 0 2 (rng s) of
        (i, g1) \<Rightarrow>
          (case harmonics_at (pitch (melodyCurrentNote s)) i of
             None \<Rightarrow> None
           | Some pitch1 \<Rightarrow>
               (case defineNoteDuration totalAcc g1 of
                  None \<Rightarrow> None
                | Some (d, g2) \<Rightarrow>
                    Some (s\<lparr> bassCurrentNote := \<lparr> pitch = pitch1, octave = octave1, duration = d \<rparr>,
                            rng := g2 \<rparr>))))"

section \<open>One cycle\<close>

text \<open>
  \<^verbatim>\<open>playNote\<close> computes the two magnitudes from the sensor events with a floating
  point square root, runs the melody selector and then the bass selector, and hands the
  two frequencies to \<^verbatim>\<open>tone\<close>. The embedding starts at the magnitudes and ends at the
  two voices.
\<close>

definition playNote :: "cfloat \<Rightarrow> cfloat \<Rightarrow> state \<Rightarrow> state option" where
  "playNote totalAcc totalSpin s =
     (case defineMelodyNote totalAcc totalSpin s of
        None \<Rightarrow> None
      | Some s1 \<Rightarrow> defineBassNote totalAcc totalSpin s1)"

text \<open>The ranges the sketch keeps its voices in.\<close>

definition valid_note :: "struct_note \<Rightarrow> bool" where
  "valid_note n = (0 \<le> pitch n \<and> pitch n \<le> 7 \<and> 0 \<le> octave n \<and> octave n \<le> 5)"

section \<open>Facts about the random source and the tables\<close>

lemma arduino_random_range:
  "lo < hi \<Longrightarrow> lo \<le> fst (arduino_random lo hi g) \<and> fst (arduino_random lo hi g) < hi"
proof -
  assume "lo < hi"
  then have w: "0 < hi - lo" by simp
  have "0 \<le> int (shd g) mod (hi - lo)" and "int (shd g) mod (hi - lo) < hi - lo"
    using w by (rule pos_mod_sign, rule pos_mod_bound)
  moreover have "fst (arduino_random lo hi g) = int (shd g) mod (hi - lo) + lo"
    using \<open>lo < hi\<close> by (simp add: arduino_random_def)
  ultimately show ?thesis by linarith
qed

lemma arduino_random_rest:
  "lo < hi \<Longrightarrow> snd (arduino_random lo hi g) = stl g"
  by (simp add: arduino_random_def)

lemma noteDuration_at_values:
  "noteDuration_at 0 = Some 125" "noteDuration_at 1 = Some 125"
  "noteDuration_at 2 = Some 125" "noteDuration_at 3 = Some 125"
  "noteDuration_at 4 = Some 125" "noteDuration_at 5 = Some 125"
  "noteDuration_at 6 = Some 125" "noteDuration_at 7 = Some 125"
  "noteDuration_at 8 = Some 250" "noteDuration_at 9 = Some 250"
  "noteDuration_at 10 = Some 250" "noteDuration_at 11 = Some 250"
  "noteDuration_at 12 = Some 500" "noteDuration_at 13 = Some 500"
  "noteDuration_at 14 = Some 500" "noteDuration_at 15 = Some 500"
  "noteDuration_at 16 = Some 1000" "noteDuration_at 17 = Some 1000"
  "noteDuration_at 18 = Some 1000" "noteDuration_at 19 = Some 1500"
  by (simp_all add: noteDuration_at_def noteDuration_def)

lemma int_cases_0_10:
  fixes i :: int
  assumes "0 \<le> i" "i < 10"
  shows "i = 0 \<or> i = 1 \<or> i = 2 \<or> i = 3 \<or> i = 4 \<or> i = 5 \<or> i = 6 \<or> i = 7 \<or> i = 8 \<or> i = 9"
  using assms by arith

lemma int_cases_10_18:
  fixes i :: int
  assumes "10 \<le> i" "i < 18"
  shows "i = 10 \<or> i = 11 \<or> i = 12 \<or> i = 13 \<or> i = 14 \<or> i = 15 \<or> i = 16 \<or> i = 17"
  using assms by arith

lemma noteDuration_at_low:
  assumes "0 \<le> i" "i < 10"
  shows "noteDuration_at i = Some 125 \<or> noteDuration_at i = Some 250"
  using int_cases_0_10 [OF assms] noteDuration_at_values by auto

lemma noteDuration_at_mid:
  assumes "10 \<le> i" "i < 18"
  shows "noteDuration_at i = Some 250 \<or> noteDuration_at i = Some 500
         \<or> noteDuration_at i = Some 1000"
  using int_cases_10_18 [OF assms] noteDuration_at_values by auto

lemma durationIndex_cases:
  "(float_gt totalAcc 0.5 \<and> float_lt totalAcc 0.75 \<and> fst (durationIndex totalAcc g) = 18)
   \<or> (float_gt totalAcc 0.75 \<and> float_lt totalAcc 3
       \<and> 10 \<le> fst (durationIndex totalAcc g) \<and> fst (durationIndex totalAcc g) < 18)
   \<or> (\<not> (float_gt totalAcc 0.5 \<and> float_lt totalAcc 0.75)
       \<and> \<not> (float_gt totalAcc 0.75 \<and> float_lt totalAcc 3)
       \<and> 0 \<le> fst (durationIndex totalAcc g) \<and> fst (durationIndex totalAcc g) < 10)"
  by (simp add: durationIndex_def arduino_random_def)

lemma durationIndex_rest: "snd (durationIndex totalAcc g) = stl g"
  by (simp add: durationIndex_def arduino_random_def)

lemma defineNoteDuration_eq:
  "noteDuration_at (fst (durationIndex totalAcc g)) = Some d \<Longrightarrow>
   defineNoteDuration totalAcc g = Some (d, stl g)"
  using durationIndex_rest [of totalAcc g]
  by (cases "durationIndex totalAcc g") (simp add: defineNoteDuration_def)

lemma defineNoteDuration_Some:
  "\<exists>d. noteDuration_at (fst (durationIndex totalAcc g)) = Some d
       \<and> defineNoteDuration totalAcc g = Some (d, stl g)"
proof -
  let ?i = "fst (durationIndex totalAcc g)"
  have "0 \<le> ?i \<and> ?i < 20" using durationIndex_cases [of totalAcc g] by auto
  then obtain d where "noteDuration_at ?i = Some d"
    by (auto simp: noteDuration_at_def noteDuration_def)
  then show ?thesis using defineNoteDuration_eq by blast
qed

section \<open>Facts about the melody selector\<close>

lemma pitchWhile_le: "p \<le> 6 \<Longrightarrow> pitchWhile p = p"
  by (simp add: pitchWhile.simps [of p])

lemma pitchWhile_gt: "p > 6 \<Longrightarrow> pitchWhile p = pitchWhile (p - 3)"
  by (simp add: pitchWhile.simps [of p])

lemma pitchWhile_range: "0 \<le> p \<Longrightarrow> 0 \<le> pitchWhile p \<and> pitchWhile p \<le> 6"
proof (induction p rule: pitchWhile.induct)
  case (1 p)
  show ?case
  proof (cases "p > 6")
    case True
    then have "0 \<le> p - 3" by simp
    with 1 True show ?thesis by (simp add: pitchWhile_gt)
  next
    case False
    with 1 show ?thesis by (simp add: pitchWhile_le)
  qed
qed

lemma pitchClamp_range: "0 \<le> pitchClamp p \<and> pitchClamp p \<le> 6"
  unfolding pitchClamp_def by (rule pitchWhile_range) simp

lemma silenceOverride_range:
  "0 \<le> p \<Longrightarrow> p \<le> 6 \<Longrightarrow>
   0 \<le> silenceOverride totalAcc totalSpin p \<and> silenceOverride totalAcc totalSpin p \<le> 7"
  by (simp add: silenceOverride_def)

lemma melodyPitchWalk_bounds:
  assumes "0 \<le> p" "p \<le> 7"
  shows "- 5 \<le> fst (melodyPitchWalk totalSpin p g) \<and> fst (melodyPitchWalk totalSpin p g) \<le> 12"
proof -
  have r: "\<And>h. 0 \<le> fst (arduino_random 0 6 h) \<and> fst (arduino_random 0 6 h) < 6"
    by (rule arduino_random_range) simp
  show ?thesis
  proof (cases "float_lt totalSpin 3")
    case True
    then have "\<not> float_gt totalSpin 4" by (cases totalSpin) auto
    with True have "fst (melodyPitchWalk totalSpin p g) = p - fst (arduino_random 0 6 g)"
      by (simp add: melodyPitchWalk_def split: prod.splits)
    with r [of g] assms show ?thesis by simp
  next
    case False
    then have "fst (melodyPitchWalk totalSpin p g) =
               (if float_gt totalSpin 4 then p + fst (arduino_random 0 6 g) else p)"
      by (simp add: melodyPitchWalk_def split: prod.splits)
    with r [of g] assms show ?thesis by simp
  qed
qed

lemma melodyOctaveWalk_eq:
  assumes "0 \<le> k" "k \<le> 5"
  shows "melodyOctaveWalk totalAcc k =
           (if float_lt totalAcc 3 then (if k = 0 then 5 else k - 1)
            else if float_ge totalAcc 3 then (if k = 5 then 2 else k + 1)
            else k)"
proof -
  have "float_lt totalAcc 3 \<Longrightarrow> \<not> float_ge totalAcc 3" by (cases totalAcc) auto
  with assms show ?thesis by (auto simp: melodyOctaveWalk_def Let_def)
qed

lemma bassOctaveWalk_eq:
  assumes "0 \<le> k" "k \<le> 5"
  shows "bassOctaveWalk totalSpin k =
           (if float_lt totalSpin 3 then (if k = 0 then 2 else k - 1)
            else if float_ge totalSpin 3 then (if k = 5 then 0 else k + 1)
            else k)"
proof -
  have "float_lt totalSpin 3 \<Longrightarrow> \<not> float_ge totalSpin 3" by (cases totalSpin) auto
  with assms show ?thesis by (auto simp: bassOctaveWalk_def Let_def)
qed

lemma defineMelodyNote_Some:
  "\<exists>d. noteDuration_at
          (fst (durationIndex totalAcc
                 (snd (melodyPitchWalk totalSpin (pitch (melodyCurrentNote s)) (rng s))))) = Some d
     \<and> defineMelodyNote totalAcc totalSpin s =
         Some (s\<lparr> melodyCurrentNote :=
                    \<lparr> pitch = silenceOverride totalAcc totalSpin
                        (pitchClamp (fst (melodyPitchWalk totalSpin (pitch (melodyCurrentNote s)) (rng s)))),
                      octave = melodyOctaveWalk totalAcc (octave (melodyCurrentNote s)),
                      duration = d \<rparr>,
                  rng := stl (snd (melodyPitchWalk totalSpin (pitch (melodyCurrentNote s)) (rng s))) \<rparr>)"
proof -
  obtain p g1 where w: "melodyPitchWalk totalSpin (pitch (melodyCurrentNote s)) (rng s) = (p, g1)"
    by (cases "melodyPitchWalk totalSpin (pitch (melodyCurrentNote s)) (rng s)")
  obtain d where d: "noteDuration_at (fst (durationIndex totalAcc g1)) = Some d"
    "defineNoteDuration totalAcc g1 = Some (d, stl g1)"
    using defineNoteDuration_Some [of totalAcc g1] by blast
  show ?thesis using w d by (simp add: defineMelodyNote_def Let_def)
qed

lemma melodyPitchWalk_eq:
  "melodyPitchWalk totalSpin p g =
     (if float_lt totalSpin 3 then (p - int (shd g) mod 6, stl g)
      else if float_gt totalSpin 4 then (p + int (shd g) mod 6, stl g)
      else (p, g))"
proof -
  have "float_lt totalSpin 3 \<Longrightarrow> \<not> float_gt totalSpin 4" by (cases totalSpin) auto
  then show ?thesis by (auto simp: melodyPitchWalk_def arduino_random_def)
qed

lemma pitchClamp_id: "0 \<le> p \<Longrightarrow> p \<le> 6 \<Longrightarrow> pitchClamp p = p"
  by (simp add: pitchClamp_def pitchWhile_le)

section \<open>Facts about the bass selector\<close>

lemma harmonics_at_Some:
  assumes "0 \<le> m" "m \<le> 7" "i = 0 \<or> i = 1 \<or> i = 2"
  shows "\<exists>b. harmonics_at m i = Some b \<and> 0 \<le> b \<and> b \<le> 7"
proof -
  from assms(1,2) have "m = 0 \<or> m = 1 \<or> m = 2 \<or> m = 3 \<or> m = 4 \<or> m = 5 \<or> m = 6 \<or> m = 7"
    by arith
  with assms(3) show ?thesis
    by (auto simp: harmonics_at_def harmonics_def)
qed

lemma defineBassNote_Some:
  assumes "0 \<le> pitch (melodyCurrentNote s)" "pitch (melodyCurrentNote s) \<le> 7"
  shows "\<exists>b d. harmonics_at (pitch (melodyCurrentNote s)) (int (shd (rng s)) mod 2) = Some b
        \<and> 0 \<le> b \<and> b \<le> 7
        \<and> noteDuration_at (fst (durationIndex totalAcc (stl (rng s)))) = Some d
        \<and> defineBassNote totalAcc totalSpin s =
            Some (s\<lparr> bassCurrentNote :=
                       \<lparr> pitch = b,
                         octave = bassOctaveWalk totalSpin (octave (bassCurrentNote s)),
                         duration = d \<rparr>,
                     rng := stl (stl (rng s)) \<rparr>)"
proof -
  let ?i = "int (shd (rng s)) mod 2"
  have "?i = 0 \<or> ?i = 1 \<or> ?i = 2" by presburger
  from harmonics_at_Some [OF assms this] obtain b where b: "harmonics_at (pitch (melodyCurrentNote s)) (int (shd (rng s)) mod 2) = Some b"
    "0 \<le> b" "b \<le> 7"
    by auto
  obtain d where d: "noteDuration_at (fst (durationIndex totalAcc (stl (rng s)))) = Some d"
    "defineNoteDuration totalAcc (stl (rng s)) = Some (d, stl (stl (rng s)))"
    using defineNoteDuration_Some [of totalAcc "stl (rng s)"] by blast
  show ?thesis using b d by (simp add: defineBassNote_def Let_def arduino_random_def)
qed

section \<open>The voices stay in range\<close>

lemma defineMelodyNote_valid:
  assumes "0 \<le> octave (melodyCurrentNote s)" "octave (melodyCurrentNote s) \<le> 5"
  shows "\<exists>m. defineMelodyNote totalAcc totalSpin s = Some m
           \<and> valid_note (melodyCurrentNote m) \<and> bassCurrentNote m = bassCurrentNote s"
proof -
  have o: "0 \<le> melodyOctaveWalk totalAcc (octave (melodyCurrentNote s))
         \<and> melodyOctaveWalk totalAcc (octave (melodyCurrentNote s)) \<le> 5"
    using assms unfolding melodyOctaveWalk_eq [OF assms] by auto
  have p: "0 \<le> silenceOverride totalAcc totalSpin (pitchClamp q)
         \<and> silenceOverride totalAcc totalSpin (pitchClamp q) \<le> 7" for q
    using pitchClamp_range [of q] by (simp add: silenceOverride_range)
  show ?thesis
    using defineMelodyNote_Some [of totalAcc totalSpin s] o p
    by (auto simp: valid_note_def)
qed

lemma defineBassNote_valid:
  assumes "0 \<le> pitch (melodyCurrentNote s)" "pitch (melodyCurrentNote s) \<le> 7"
    and "0 \<le> octave (bassCurrentNote s)" "octave (bassCurrentNote s) \<le> 5"
  shows "\<exists>b. defineBassNote totalAcc totalSpin s = Some b
           \<and> valid_note (bassCurrentNote b) \<and> melodyCurrentNote b = melodyCurrentNote s"
proof -
  have o: "0 \<le> bassOctaveWalk totalSpin (octave (bassCurrentNote s))
         \<and> bassOctaveWalk totalSpin (octave (bassCurrentNote s)) \<le> 5"
    using assms(3,4) unfolding bassOctaveWalk_eq [OF assms(3,4)] by auto
  show ?thesis
    using defineBassNote_Some [OF assms(1,2), of totalAcc totalSpin] o
    by (auto simp: valid_note_def)
qed

lemma playNote_valid:
  assumes "valid_note (melodyCurrentNote s)" "valid_note (bassCurrentNote s)"
  shows "\<exists>t. playNote totalAcc totalSpin s = Some t
           \<and> valid_note (melodyCurrentNote t) \<and> valid_note (bassCurrentNote t)"
proof -
  obtain m where m: "defineMelodyNote totalAcc totalSpin s = Some m"
    "valid_note (melodyCurrentNote m)" "bassCurrentNote m = bassCurrentNote s"
    using defineMelodyNote_valid [of s totalAcc totalSpin] assms(1)
    by (auto simp: valid_note_def)
  obtain b where b: "defineBassNote totalAcc totalSpin m = Some b"
    "valid_note (bassCurrentNote b)" "melodyCurrentNote b = melodyCurrentNote m"
    using defineBassNote_valid [of m totalAcc totalSpin] m(2,3) assms(2)
    by (auto simp: valid_note_def)
  show ?thesis using m b by (simp add: playNote_def)
qed

section \<open>The selectors read a bounded prefix of the random source\<close>

lemma durationIndex_head:
  "shd g = shd h \<Longrightarrow> fst (durationIndex totalAcc g) = fst (durationIndex totalAcc h)"
  by (simp add: durationIndex_def arduino_random_def)

lemma stake_4_heads:
  assumes "stake 4 g = stake 4 h"
  shows "shd g = shd h" "shd (stl g) = shd (stl h)"
    "shd (stl (stl g)) = shd (stl (stl h))"
    "shd (stl (stl (stl g))) = shd (stl (stl (stl h)))"
  using assms by (simp_all add: eval_nat_numeral)

lemma defineMelodyNote_agree:
  assumes "melodyCurrentNote s = melodyCurrentNote t"
    and "shd (rng s) = shd (rng t)" "shd (stl (rng s)) = shd (stl (rng t))"
  shows "\<exists>nt. defineMelodyNote totalAcc totalSpin s =
              Some (s\<lparr> melodyCurrentNote := nt,
                      rng := (if float_lt totalSpin 3 \<or> float_gt totalSpin 4
                              then stl (stl (rng s)) else stl (rng s)) \<rparr>)
            \<and> defineMelodyNote totalAcc totalSpin t =
              Some (t\<lparr> melodyCurrentNote := nt,
                      rng := (if float_lt totalSpin 3 \<or> float_gt totalSpin 4
                              then stl (stl (rng t)) else stl (rng t)) \<rparr>)"
proof -
  let ?ws = "melodyPitchWalk totalSpin (pitch (melodyCurrentNote s)) (rng s)"
  let ?wt = "melodyPitchWalk totalSpin (pitch (melodyCurrentNote t)) (rng t)"
  have f: "fst ?ws = fst ?wt"
    using assms(1,2) by (simp add: melodyPitchWalk_eq)
  have ss: "snd ?ws = (if float_lt totalSpin 3 \<or> float_gt totalSpin 4 then stl (rng s) else rng s)"
    and st: "snd ?wt = (if float_lt totalSpin 3 \<or> float_gt totalSpin 4 then stl (rng t) else rng t)"
    by (simp_all add: melodyPitchWalk_eq)
  have "shd (snd ?ws) = shd (snd ?wt)"
    using assms(2,3) by (simp add: ss st)
  then have i: "fst (durationIndex totalAcc (snd ?ws)) = fst (durationIndex totalAcc (snd ?wt))"
    by (rule durationIndex_head)
  from defineMelodyNote_Some [of totalAcc totalSpin s]
  obtain ds where ds: "noteDuration_at (fst (durationIndex totalAcc (snd ?ws))) = Some ds"
    and rs: "defineMelodyNote totalAcc totalSpin s =
      Some (s\<lparr> melodyCurrentNote :=
                 \<lparr> pitch = silenceOverride totalAcc totalSpin (pitchClamp (fst ?ws)),
                   octave = melodyOctaveWalk totalAcc (octave (melodyCurrentNote s)),
                   duration = ds \<rparr>,
               rng := stl (snd ?ws) \<rparr>)"
    by blast
  from defineMelodyNote_Some [of totalAcc totalSpin t]
  obtain dt where dt: "noteDuration_at (fst (durationIndex totalAcc (snd ?wt))) = Some dt"
    and rt: "defineMelodyNote totalAcc totalSpin t =
      Some (t\<lparr> melodyCurrentNote :=
                 \<lparr> pitch = silenceOverride totalAcc totalSpin (pitchClamp (fst ?wt)),
                   octave = melodyOctaveWalk totalAcc (octave (melodyCurrentNote t)),
                   duration = dt \<rparr>,
               rng := stl (snd ?wt) \<rparr>)"
    by blast
  have e: "ds = dt" using ds dt i by simp
  have o: "melodyOctaveWalk totalAcc (octave (melodyCurrentNote s))
         = melodyOctaveWalk totalAcc (octave (melodyCurrentNote t))"
    using assms(1) by simp
  let ?nt = "\<lparr> pitch = silenceOverride totalAcc totalSpin (pitchClamp (fst ?wt)),
              octave = melodyOctaveWalk totalAcc (octave (melodyCurrentNote t)),
              duration = dt \<rparr>"
  have "defineMelodyNote totalAcc totalSpin s =
              Some (s\<lparr> melodyCurrentNote := ?nt,
                      rng := (if float_lt totalSpin 3 \<or> float_gt totalSpin 4
                              then stl (stl (rng s)) else stl (rng s)) \<rparr>)"
    by (cases "float_lt totalSpin 3 \<or> float_gt totalSpin 4") (simp_all add: rs f e ss o)
  moreover have "defineMelodyNote totalAcc totalSpin t =
              Some (t\<lparr> melodyCurrentNote := ?nt,
                      rng := (if float_lt totalSpin 3 \<or> float_gt totalSpin 4
                              then stl (stl (rng t)) else stl (rng t)) \<rparr>)"
    by (cases "float_lt totalSpin 3 \<or> float_gt totalSpin 4") (simp_all add: rt st)
  ultimately show ?thesis by blast
qed

lemma defineBassNote_agree:
  assumes "pitch (melodyCurrentNote s) = pitch (melodyCurrentNote t)"
    and "octave (bassCurrentNote s) = octave (bassCurrentNote t)"
    and "shd (rng s) = shd (rng t)" "shd (stl (rng s)) = shd (stl (rng t))"
  shows "(defineBassNote totalAcc totalSpin s = None \<and> defineBassNote totalAcc totalSpin t = None)
       \<or> (\<exists>nt. defineBassNote totalAcc totalSpin s =
                  Some (s\<lparr> bassCurrentNote := nt, rng := stl (stl (rng s)) \<rparr>)
               \<and> defineBassNote totalAcc totalSpin t =
                  Some (t\<lparr> bassCurrentNote := nt, rng := stl (stl (rng t)) \<rparr>))"
proof -
  obtain d where d: "noteDuration_at (fst (durationIndex totalAcc (stl (rng s)))) = Some d"
    "defineNoteDuration totalAcc (stl (rng s)) = Some (d, stl (stl (rng s)))"
    using defineNoteDuration_Some [of totalAcc "stl (rng s)"] by blast
  have "fst (durationIndex totalAcc (stl (rng s))) = fst (durationIndex totalAcc (stl (rng t)))"
    using assms(4) by (rule durationIndex_head)
  with d(1) have "defineNoteDuration totalAcc (stl (rng t)) = Some (d, stl (stl (rng t)))"
    using defineNoteDuration_eq [of totalAcc "stl (rng t)" d] by simp
  note dur = d(2) this
  show ?thesis
  proof (cases "harmonics_at (pitch (melodyCurrentNote t)) (int (shd (rng t)) mod 2)")
    case None
    with assms(1,3) show ?thesis
      by (simp add: defineBassNote_def arduino_random_def Let_def)
  next
    case (Some q)
    let ?nt = "\<lparr> pitch = q, octave = bassOctaveWalk totalSpin (octave (bassCurrentNote t)),
                duration = d \<rparr>"
    have "defineBassNote totalAcc totalSpin s =
            Some (s\<lparr> bassCurrentNote := ?nt, rng := stl (stl (rng s)) \<rparr>)"
      using Some assms(1,2,3) dur(1)
      by (simp add: defineBassNote_def arduino_random_def Let_def)
    moreover have "defineBassNote totalAcc totalSpin t =
            Some (t\<lparr> bassCurrentNote := ?nt, rng := stl (stl (rng t)) \<rparr>)"
      using Some dur(2)
      by (simp add: defineBassNote_def arduino_random_def Let_def)
    ultimately show ?thesis by blast
  qed
qed

section \<open>Claims\<close>

text \<open>
  C4. For every magnitude \<open>totalAcc\<close> (a NaN and the infinities included) and every
  state of the random source, the duration selector returns, and what it returns is 125,
  250, 500 or 1000 milliseconds, read at an index other than 19: the 1500 millisecond
  entry of the table is never returned.
\<close>

theorem defineNoteDuration_never_1500:
  "\<exists>d. defineNoteDuration totalAcc g = Some (d, stl g)
       \<and> d \<in> {125, 250, 500, 1000}
       \<and> fst (durationIndex totalAcc g) \<noteq> 19"
proof -
  let ?i = "fst (durationIndex totalAcc g)"
  have "0 \<le> ?i \<and> ?i < 19" using durationIndex_cases [of totalAcc g] by auto
  moreover have "\<exists>d. noteDuration_at ?i = Some d \<and> d \<in> {125, 250, 500, 1000}"
    using durationIndex_cases [of totalAcc g] noteDuration_at_low [of ?i]
      noteDuration_at_mid [of ?i] noteDuration_at_values(19)
    by auto
  ultimately show ?thesis using defineNoteDuration_eq by auto
qed

text \<open>
  C5. From octaves in 0..5, and whatever the two magnitudes are, both octave walks end
  in 0..5. The melody walk (on \<open>totalAcc\<close>) takes octave 0 to 5 when it decrements
  (pre-wrap -1) and octave 5 to 2 when it increments (pre-wrap 6); the bass walk (on
  \<open>totalSpin\<close>) takes octave 0 to 2 and octave 5 to 0. The melody selector stores the
  result of the melody walk, and the bass selector, whenever the melody pitch it reads
  is in 0..7, stores the result of the bass walk.
\<close>

theorem octave_walks_wrap:
  assumes "0 \<le> octave (melodyCurrentNote s)" "octave (melodyCurrentNote s) \<le> 5"
    and "0 \<le> octave (bassCurrentNote s)" "octave (bassCurrentNote s) \<le> 5"
  shows "0 \<le> melodyOctaveWalk totalAcc (octave (melodyCurrentNote s))
       \<and> melodyOctaveWalk totalAcc (octave (melodyCurrentNote s)) \<le> 5
       \<and> 0 \<le> bassOctaveWalk totalSpin (octave (bassCurrentNote s))
       \<and> bassOctaveWalk totalSpin (octave (bassCurrentNote s)) \<le> 5
       \<and> melodyOctaveWalk totalAcc (octave (melodyCurrentNote s)) =
           (if float_lt totalAcc 3
            then (if octave (melodyCurrentNote s) = 0 then 5 else octave (melodyCurrentNote s) - 1)
            else if float_ge totalAcc 3
            then (if octave (melodyCurrentNote s) = 5 then 2 else octave (melodyCurrentNote s) + 1)
            else octave (melodyCurrentNote s))
       \<and> bassOctaveWalk totalSpin (octave (bassCurrentNote s)) =
           (if float_lt totalSpin 3
            then (if octave (bassCurrentNote s) = 0 then 2 else octave (bassCurrentNote s) - 1)
            else if float_ge totalSpin 3
            then (if octave (bassCurrentNote s) = 5 then 0 else octave (bassCurrentNote s) + 1)
            else octave (bassCurrentNote s))
       \<and> (\<exists>m. defineMelodyNote totalAcc totalSpin s = Some m
              \<and> octave (melodyCurrentNote m) =
                  melodyOctaveWalk totalAcc (octave (melodyCurrentNote s)))
       \<and> (0 \<le> pitch (melodyCurrentNote s) \<and> pitch (melodyCurrentNote s) \<le> 7 \<longrightarrow>
            (\<exists>b. defineBassNote totalAcc totalSpin s = Some b
              \<and> octave (bassCurrentNote b) =
                  bassOctaveWalk totalSpin (octave (bassCurrentNote s))))"
proof -
  note m = melodyOctaveWalk_eq [OF assms(1,2), of totalAcc]
  note b = bassOctaveWalk_eq [OF assms(3,4), of totalSpin]
  have m_range: "0 \<le> melodyOctaveWalk totalAcc (octave (melodyCurrentNote s))
       \<and> melodyOctaveWalk totalAcc (octave (melodyCurrentNote s)) \<le> 5"
    using assms(1,2) unfolding m by auto
  have b_range: "0 \<le> bassOctaveWalk totalSpin (octave (bassCurrentNote s))
       \<and> bassOctaveWalk totalSpin (octave (bassCurrentNote s)) \<le> 5"
    using assms(3,4) unfolding b by auto
  have m_sel: "\<exists>m. defineMelodyNote totalAcc totalSpin s = Some m
              \<and> octave (melodyCurrentNote m) =
                  melodyOctaveWalk totalAcc (octave (melodyCurrentNote s))"
    using defineMelodyNote_Some [of totalAcc totalSpin s] by auto
  have b_sel: "0 \<le> pitch (melodyCurrentNote s) \<and> pitch (melodyCurrentNote s) \<le> 7 \<longrightarrow>
            (\<exists>b. defineBassNote totalAcc totalSpin s = Some b
              \<and> octave (bassCurrentNote b) =
                  bassOctaveWalk totalSpin (octave (bassCurrentNote s)))"
  proof
    assume "0 \<le> pitch (melodyCurrentNote s) \<and> pitch (melodyCurrentNote s) \<le> 7"
    then show "\<exists>b. defineBassNote totalAcc totalSpin s = Some b
              \<and> octave (bassCurrentNote b) =
                  bassOctaveWalk totalSpin (octave (bassCurrentNote s))"
      using defineBassNote_Some [of s totalAcc totalSpin] by auto
  qed
  from m_range b_range m b m_sel b_sel show ?thesis by blast
qed

theorem octave_walks_wrap_witness:
  "melodyOctaveWalk (Finite 1) 0 = 5 \<and> melodyOctaveWalk (Finite 4) 5 = 2
   \<and> bassOctaveWalk (Finite 1) 0 = 2 \<and> bassOctaveWalk (Finite 4) 5 = 0
   \<and> (\<exists>b. defineBassNote (Finite 4) (Finite 1) (initial_state (sconst 0)) = Some b
          \<and> octave (bassCurrentNote b) = 2)"
proof -
  let ?lo = "\<lparr> melodyCurrentNote = \<lparr> pitch = 0, octave = 0, duration = 0 \<rparr>,
              bassCurrentNote = \<lparr> pitch = 0, octave = 0, duration = 0 \<rparr>, rng = sconst 0 \<rparr>"
  let ?hi = "\<lparr> melodyCurrentNote = \<lparr> pitch = 0, octave = 5, duration = 0 \<rparr>,
              bassCurrentNote = \<lparr> pitch = 0, octave = 5, duration = 0 \<rparr>, rng = sconst 0 \<rparr>"
  have lo: "melodyOctaveWalk (Finite 1) 0 = 5 \<and> bassOctaveWalk (Finite 1) 0 = 2"
    using octave_walks_wrap [of ?lo "Finite 1" "Finite 1"] by simp
  have hi: "melodyOctaveWalk (Finite 4) 5 = 2 \<and> bassOctaveWalk (Finite 4) 5 = 0"
    using octave_walks_wrap [of ?hi "Finite 4" "Finite 4"] by simp
  have "\<exists>b. defineBassNote (Finite 4) (Finite 1) (initial_state (sconst 0)) = Some b
          \<and> octave (bassCurrentNote b) = 2"
    using octave_walks_wrap [of "initial_state (sconst 0)" "Finite 4" "Finite 1"]
    by (auto simp: initial_state_def)
  with lo hi show ?thesis by simp
qed

text \<open>
  C6. From a melody pitch in 0..7, for all magnitudes and every draw of the random
  source, the melody selector returns; the pitch it has after the fold of a negative
  value and the subtraction loop is in 0..6, and the pitch it stores, which is the
  silence override applied to that value, is in 0..7.
\<close>

theorem melody_pitch_clamped:
  assumes "0 \<le> pitch (melodyCurrentNote s)" "pitch (melodyCurrentNote s) \<le> 7"
  shows "\<exists>m. defineMelodyNote totalAcc totalSpin s = Some m
           \<and> pitch (melodyCurrentNote m) =
               silenceOverride totalAcc totalSpin
                 (pitchClamp (fst (melodyPitchWalk totalSpin (pitch (melodyCurrentNote s)) (rng s))))
           \<and> 0 \<le> pitchClamp (fst (melodyPitchWalk totalSpin (pitch (melodyCurrentNote s)) (rng s)))
           \<and> pitchClamp (fst (melodyPitchWalk totalSpin (pitch (melodyCurrentNote s)) (rng s))) \<le> 6
           \<and> 0 \<le> pitch (melodyCurrentNote m) \<and> pitch (melodyCurrentNote m) \<le> 7"
proof -
  let ?c = "pitchClamp (fst (melodyPitchWalk totalSpin (pitch (melodyCurrentNote s)) (rng s)))"
  have c: "0 \<le> ?c \<and> ?c \<le> 6" by (rule pitchClamp_range)
  then have o: "0 \<le> silenceOverride totalAcc totalSpin ?c
                \<and> silenceOverride totalAcc totalSpin ?c \<le> 7"
    by (simp add: silenceOverride_range)
  obtain m where m: "defineMelodyNote totalAcc totalSpin s = Some m"
    "pitch (melodyCurrentNote m) = silenceOverride totalAcc totalSpin ?c"
    using defineMelodyNote_Some [of totalAcc totalSpin s] by auto
  with c o show ?thesis by simp
qed

theorem melody_pitch_clamped_witness:
  "\<exists>m. defineMelodyNote (Finite 4) (Finite 5)
          ((initial_state (sconst 5))\<lparr> melodyCurrentNote := \<lparr> pitch = 7, octave = 3, duration = 125 \<rparr> \<rparr>)
        = Some m
      \<and> pitchClamp (fst (melodyPitchWalk (Finite 5) 7 (sconst 5))) = 6
      \<and> pitch (melodyCurrentNote m) = 6"
proof -
  have w: "fst (melodyPitchWalk (Finite 5) 7 (sconst 5)) = 12"
    by (simp add: melodyPitchWalk_def arduino_random_def)
  have c: "pitchClamp 12 = 6"
    by (simp add: pitchClamp_def pitchWhile_gt pitchWhile_le)
  show ?thesis
    using melody_pitch_clamped [of "(initial_state (sconst 5))\<lparr> melodyCurrentNote :=
        \<lparr> pitch = 7, octave = 3, duration = 125 \<rparr> \<rparr>" "Finite 4" "Finite 5"]
    by (auto simp: initial_state_def w c silenceOverride_def)
qed

text \<open>
  C7. Whenever \<open>totalAcc < 0.5\<close> or \<open>totalSpin < 0.5\<close>, the melody selector
  returns with melody pitch 7, from every state and for every draw; so it does for
  \<open>totalAcc = 0.2\<close> and \<open>totalSpin = 5\<close>.
\<close>

theorem silence_override_forces_7:
  "(float_lt totalAcc 0.5 \<or> float_lt totalSpin 0.5 \<longrightarrow>
      (\<exists>m. defineMelodyNote totalAcc totalSpin s = Some m \<and> pitch (melodyCurrentNote m) = 7))
   \<and> (\<exists>m. defineMelodyNote (Finite 0.2) (Finite 5) s = Some m \<and> pitch (melodyCurrentNote m) = 7)"
proof -
  have "\<exists>m. defineMelodyNote a b s = Some m \<and> pitch (melodyCurrentNote m) = 7"
    if "float_lt a 0.5 \<or> float_lt b 0.5" for a b
  proof -
    from that have "silenceOverride a b p = 7" for p by (simp add: silenceOverride_def)
    then show ?thesis using defineMelodyNote_Some [of a b s] by auto
  qed
  from this [of totalAcc totalSpin] this [of "Finite 0.2" "Finite 5"] show ?thesis by simp
qed

theorem silence_override_forces_7_witness:
  "(float_lt (Finite 4) 0.5 \<or> float_lt (Finite 0.25) 0.5)
   \<and> (\<exists>m. defineMelodyNote (Finite 4) (Finite 0.25) (initial_state (sconst 3)) = Some m
          \<and> pitch (melodyCurrentNote m) = 7)"
  using silence_override_forces_7 [of "Finite 4" "Finite 0.25" "initial_state (sconst 3)"]
  by simp

text \<open>
  C9. If the previous melody pitch is 7 and \<open>3 \<le> totalSpin \<le> 4\<close> while
  \<open>totalAcc \<ge> 0.5\<close> (so that \<open>totalSpin \<ge> 0.5\<close> as well), neither branch of
  the pitch walk fires and no number is drawn for it, yet the melody selector stores
  pitch 4: the loop takes the untouched 7 to 7 - 3.
\<close>

theorem silence_not_preserved_in_noop_band:
  assumes "pitch (melodyCurrentNote s) = 7"
    and "float_ge totalSpin 3" "\<not> float_gt totalSpin 4"
    and "float_ge totalAcc 0.5" "float_ge totalSpin 0.5"
  shows "melodyPitchWalk totalSpin (pitch (melodyCurrentNote s)) (rng s) = (7, rng s)
       \<and> (\<exists>m. defineMelodyNote totalAcc totalSpin s = Some m \<and> pitch (melodyCurrentNote m) = 4)"
proof -
  have nlt: "\<not> float_lt totalSpin 3" using assms(2) by (cases totalSpin) auto
  have w: "melodyPitchWalk totalSpin (pitch (melodyCurrentNote s)) (rng s) = (7, rng s)"
    using nlt assms(1,3) by (simp add: melodyPitchWalk_def)
  have c: "pitchClamp 7 = 4"
    by (simp add: pitchClamp_def pitchWhile_gt pitchWhile_le)
  have "\<not> float_lt totalAcc 0.5" using assms(4) by (cases totalAcc) auto
  moreover have "\<not> float_lt totalSpin 0.5" using assms(5) by (cases totalSpin) auto
  ultimately have o: "silenceOverride totalAcc totalSpin 4 = 4"
    by (simp add: silenceOverride_def)
  show ?thesis using defineMelodyNote_Some [of totalAcc totalSpin s] w c o by auto
qed

theorem silence_not_preserved_in_noop_band_witness:
  "\<exists>m. defineMelodyNote (Finite 1) (Finite 3.5)
          ((initial_state (sconst 2))\<lparr> melodyCurrentNote := \<lparr> pitch = 7, octave = 3, duration = 125 \<rparr> \<rparr>)
        = Some m
      \<and> pitch (melodyCurrentNote m) = 4"
  using silence_not_preserved_in_noop_band
    [of "(initial_state (sconst 2))\<lparr> melodyCurrentNote := \<lparr> pitch = 7, octave = 3, duration = 125 \<rparr> \<rparr>"
        "Finite 3.5" "Finite 1"]
  by (simp add: initial_state_def)

text \<open>
  C2, as the code has it. For every \<open>totalAcc\<close> with \<open>0.5 < totalAcc < 0.75\<close> the
  duration selector draws from \<^verbatim>\<open>random(18, 19)\<close>, which is always index 18, and
  returns the entry at index 18 of the table, which is 1000 milliseconds.
\<close>

theorem duration_band_index_18:
  assumes "float_gt totalAcc 0.5" "float_lt totalAcc 0.75"
  shows "durationIndex totalAcc g = (18, stl g)
       \<and> noteDuration_at 18 = Some 1000
       \<and> defineNoteDuration totalAcc g = Some (1000, stl g)"
proof -
  have i: "durationIndex totalAcc g = (18, stl g)"
    using assms by (simp add: durationIndex_def arduino_random_def)
  then show ?thesis
    using noteDuration_at_values(19) by (simp add: defineNoteDuration_def)
qed

theorem duration_band_index_18_witness:
  "float_gt (Finite 0.6) 0.5 \<and> float_lt (Finite 0.6) 0.75
   \<and> defineNoteDuration (Finite 0.6) (7 ## sconst 3) = Some (1000, sconst 3)"
  using duration_band_index_18 [of "Finite 0.6" "7 ## sconst 3"] by simp

text \<open>
  The claim C2 as it is written fails at \<open>totalAcc = 0.6\<close>: the index drawn is 18,
  and the duration returned is 1000 milliseconds, not 1500.
\<close>

theorem duration_band_1500_counterexample:
  "float_gt (Finite 0.6) 0.5 \<and> float_lt (Finite 0.6) 0.75
   \<and> fst (durationIndex (Finite 0.6) (sconst 0)) = 18
   \<and> defineNoteDuration (Finite 0.6) (sconst 0) = Some (1000, sconst 0)
   \<and> defineNoteDuration (Finite 0.6) (sconst 0) \<noteq> Some (1500, sconst 0)"
  by (simp add: defineNoteDuration_def durationIndex_def arduino_random_def
      noteDuration_at_values(19))




text \<open>
  C1, as the code has it. From a melody pitch \<open>m\<close> in 0..7 the bass selector returns;
  the column of the harmonics row it reads is \<^verbatim>\<open>random(0, 2)\<close>, that is the raw
  draw mod 2, so the bass pitch is the first or the second entry of row \<open>m\<close> and the
  third column is never read. For melody pitch 0 the bass pitch is 2 or 4, never the
  third candidate 6.
\<close>

theorem bass_pitch_first_two_candidates:
  assumes "0 \<le> pitch (melodyCurrentNote s)" "pitch (melodyCurrentNote s) \<le> 7"
  shows "\<exists>b. defineBassNote totalAcc totalSpin s = Some b
           \<and> fst (arduino_random 0 2 (rng s)) = int (shd (rng s)) mod 2
           \<and> harmonics_at (pitch (melodyCurrentNote s)) (int (shd (rng s)) mod 2)
               = Some (pitch (bassCurrentNote b))
           \<and> (pitch (bassCurrentNote b) = harmonics ! nat (pitch (melodyCurrentNote s)) ! 0
               \<or> pitch (bassCurrentNote b) = harmonics ! nat (pitch (melodyCurrentNote s)) ! 1)
           \<and> (pitch (melodyCurrentNote s) = 0 \<longrightarrow>
                 pitch (bassCurrentNote b) \<in> {2, 4} \<and> pitch (bassCurrentNote b) \<noteq> 6)"
proof -
  let ?m = "pitch (melodyCurrentNote s)"
  let ?i = "int (shd (rng s)) mod 2"
  from defineBassNote_Some [OF assms, of totalAcc totalSpin]
  obtain q d where q: "harmonics_at ?m ?i = Some q"
    and run: "defineBassNote totalAcc totalSpin s =
      Some (s\<lparr> bassCurrentNote :=
                 \<lparr> pitch = q, octave = bassOctaveWalk totalSpin (octave (bassCurrentNote s)),
                   duration = d \<rparr>,
               rng := stl (stl (rng s)) \<rparr>)"
    by blast
  define b where "b = s\<lparr> bassCurrentNote :=
                 \<lparr> pitch = q, octave = bassOctaveWalk totalSpin (octave (bassCurrentNote s)),
                   duration = d \<rparr>,
               rng := stl (stl (rng s)) \<rparr>"
  have b: "defineBassNote totalAcc totalSpin s = Some b"
    "harmonics_at ?m ?i = Some (pitch (bassCurrentNote b))"
    using q run by (simp_all add: b_def)
  have i: "?i = 0 \<or> ?i = 1" by presburger
  have r: "fst (arduino_random 0 2 (rng s)) = ?i" by (simp add: arduino_random_def)
  have col: "pitch (bassCurrentNote b) = harmonics ! nat ?m ! 0
           \<or> pitch (bassCurrentNote b) = harmonics ! nat ?m ! 1"
    using b(2) i assms by (auto simp: harmonics_at_def)
  have zero: "?m = 0 \<longrightarrow> pitch (bassCurrentNote b) \<in> {2, 4} \<and> pitch (bassCurrentNote b) \<noteq> 6"
    using col by (auto simp: harmonics_def)
  from b r col zero show ?thesis by blast
qed

theorem bass_pitch_first_two_candidates_witness:
  "\<exists>b. defineBassNote (Finite 4) (Finite 5) (initial_state (2 ## sconst 0)) = Some b
      \<and> harmonics_at 0 0 = Some (pitch (bassCurrentNote b))
      \<and> pitch (bassCurrentNote b) \<in> {2, 4} \<and> pitch (bassCurrentNote b) \<noteq> 6"
  using bass_pitch_first_two_candidates [of "initial_state (2 ## sconst 0)" "Finite 4" "Finite 5"]
  by (auto simp: initial_state_def)

text \<open>
  C8. From the initial state (melody pitch 0 and octave 3, bass pitch 0 and octave 0),
  one cycle with \<open>totalAcc = 4\<close> and \<open>totalSpin = 5\<close> returns for every stream of
  raw draws. It uses four draws: the melody octave becomes 4 and the melody pitch
  0 plus the first draw reduced into 0..5; the bass octave becomes 1 and the bass pitch
  is an entry of the harmonics row of that new melody pitch; both durations are read at
  an index of 0..9 and are 125 or 250 milliseconds.
\<close>

theorem first_cycle_scenario:
  "\<exists>r pb im ib dm db.
     playNote (Finite 4) (Finite 5) (initial_state g) =
       Some \<lparr> melodyCurrentNote = \<lparr> pitch = 0 + r, octave = 4, duration = dm \<rparr>,
              bassCurrentNote = \<lparr> pitch = pb, octave = 1, duration = db \<rparr>,
              rng = stl (stl (stl (stl g))) \<rparr>
     \<and> r = fst (arduino_random 0 6 g) \<and> 0 \<le> r \<and> r < 6
     \<and> harmonics_at (0 + r) (int (shd (stl (stl g))) mod 2) = Some pb
     \<and> pb \<in> set (harmonics ! nat (0 + r))
     \<and> im = fst (durationIndex (Finite 4) (stl g)) \<and> 0 \<le> im \<and> im < 10
     \<and> noteDuration_at im = Some dm \<and> dm \<in> {125, 250}
     \<and> ib = fst (durationIndex (Finite 4) (stl (stl (stl g)))) \<and> 0 \<le> ib \<and> ib < 10
     \<and> noteDuration_at ib = Some db \<and> db \<in> {125, 250}"
proof -
  let ?s = "initial_state g"
  let ?r = "int (shd g) mod 6"
  have r: "fst (arduino_random 0 6 g) = ?r" "0 \<le> ?r" "?r < 6"
    by (simp_all add: arduino_random_def)
  have walk: "melodyPitchWalk (Finite 5) 0 g = (?r, stl g)"
    by (simp add: melodyPitchWalk_eq)
  have clamp: "silenceOverride (Finite 4) (Finite 5) (pitchClamp ?r) = ?r"
    using r(2,3) by (simp add: silenceOverride_def pitchClamp_id)
  have oct: "melodyOctaveWalk (Finite 4) 3 = 4"
    by (simp add: melodyOctaveWalk_def)
  have idx: "0 \<le> fst (durationIndex (Finite 4) h) \<and> fst (durationIndex (Finite 4) h) < 10" for h
    using durationIndex_cases [of "Finite 4" h] by simp
  have "\<exists>dm. noteDuration_at (fst (durationIndex (Finite 4) (stl g))) = Some dm
      \<and> defineMelodyNote (Finite 4) (Finite 5) ?s =
          Some \<lparr> melodyCurrentNote = \<lparr> pitch = ?r, octave = 4, duration = dm \<rparr>,
                 bassCurrentNote = \<lparr> pitch = 0, octave = 0, duration = 0 \<rparr>,
                 rng = stl (stl g) \<rparr>"
    using defineMelodyNote_Some [of "Finite 4" "Finite 5" ?s]
    by (simp add: initial_state_def walk clamp oct)
  then obtain dm where dm: "noteDuration_at (fst (durationIndex (Finite 4) (stl g))) = Some dm"
    and m: "defineMelodyNote (Finite 4) (Finite 5) ?s =
      Some \<lparr> melodyCurrentNote = \<lparr> pitch = ?r, octave = 4, duration = dm \<rparr>,
             bassCurrentNote = \<lparr> pitch = 0, octave = 0, duration = 0 \<rparr>,
             rng = stl (stl g) \<rparr>"
    by blast
  let ?m = "\<lparr> melodyCurrentNote = \<lparr> pitch = ?r, octave = 4, duration = dm \<rparr>,
             bassCurrentNote = \<lparr> pitch = 0, octave = 0, duration = 0 \<rparr>,
             rng = stl (stl g) \<rparr>"
  have boct: "bassOctaveWalk (Finite 5) 0 = 1"
    by (simp add: bassOctaveWalk_def)
  have "0 \<le> pitch (melodyCurrentNote ?m)" "pitch (melodyCurrentNote ?m) \<le> 7"
    using r(2,3) by simp_all
  from defineBassNote_Some [OF this, of "Finite 4" "Finite 5"]
  have "\<exists>pb db. harmonics_at ?r (int (shd (stl (stl g))) mod 2) = Some pb
      \<and> noteDuration_at (fst (durationIndex (Finite 4) (stl (stl (stl g))))) = Some db
      \<and> defineBassNote (Finite 4) (Finite 5) ?m =
          Some \<lparr> melodyCurrentNote = \<lparr> pitch = ?r, octave = 4, duration = dm \<rparr>,
                 bassCurrentNote = \<lparr> pitch = pb, octave = 1, duration = db \<rparr>,
                 rng = stl (stl (stl (stl g))) \<rparr>"
    by (auto simp: boct)
  then obtain pb db where pb: "harmonics_at ?r (int (shd (stl (stl g))) mod 2) = Some pb"
    and db: "noteDuration_at (fst (durationIndex (Finite 4) (stl (stl (stl g))))) = Some db"
    and b: "defineBassNote (Finite 4) (Finite 5) ?m =
      Some \<lparr> melodyCurrentNote = \<lparr> pitch = ?r, octave = 4, duration = dm \<rparr>,
             bassCurrentNote = \<lparr> pitch = pb, octave = 1, duration = db \<rparr>,
             rng = stl (stl (stl (stl g))) \<rparr>"
    by blast
  have run: "playNote (Finite 4) (Finite 5) ?s =
      Some \<lparr> melodyCurrentNote = \<lparr> pitch = 0 + ?r, octave = 4, duration = dm \<rparr>,
             bassCurrentNote = \<lparr> pitch = pb, octave = 1, duration = db \<rparr>,
             rng = stl (stl (stl (stl g))) \<rparr>"
    using m b by (simp add: playNote_def)
  have row: "pb \<in> set (harmonics ! nat (0 + ?r))"
  proof -
    have "int (shd (stl (stl g))) mod 2 = 0 \<or> int (shd (stl (stl g))) mod 2 = 1"
      by presburger
    moreover have "?r = 0 \<or> ?r = 1 \<or> ?r = 2 \<or> ?r = 3 \<or> ?r = 4 \<or> ?r = 5"
      using r(2,3) by arith
    ultimately show ?thesis
      using pb by (auto simp: harmonics_at_def harmonics_def)
  qed
  have dmv: "dm \<in> {125, 250}"
    using noteDuration_at_low [of "fst (durationIndex (Finite 4) (stl g))"] idx dm by auto
  have dbv: "db \<in> {125, 250}"
    using noteDuration_at_low [of "fst (durationIndex (Finite 4) (stl (stl (stl g))))"] idx db
    by auto
  from pb have pb': "harmonics_at (0 + ?r) (int (shd (stl (stl g))) mod 2) = Some pb" by simp
  let ?im = "fst (durationIndex (Finite 4) (stl g))"
  let ?ib = "fst (durationIndex (Finite 4) (stl (stl (stl g))))"
  have body: "playNote (Finite 4) (Finite 5) (initial_state g) =
       Some \<lparr> melodyCurrentNote = \<lparr> pitch = 0 + ?r, octave = 4, duration = dm \<rparr>,
              bassCurrentNote = \<lparr> pitch = pb, octave = 1, duration = db \<rparr>,
              rng = stl (stl (stl (stl g))) \<rparr>
     \<and> ?r = fst (arduino_random 0 6 g) \<and> 0 \<le> ?r \<and> ?r < 6
     \<and> harmonics_at (0 + ?r) (int (shd (stl (stl g))) mod 2) = Some pb
     \<and> pb \<in> set (harmonics ! nat (0 + ?r))
     \<and> ?im = fst (durationIndex (Finite 4) (stl g)) \<and> 0 \<le> ?im \<and> ?im < 10
     \<and> noteDuration_at ?im = Some dm \<and> dm \<in> {125, 250}
     \<and> ?ib = fst (durationIndex (Finite 4) (stl (stl (stl g)))) \<and> 0 \<le> ?ib \<and> ?ib < 10
     \<and> noteDuration_at ?ib = Some db \<and> db \<in> {125, 250}"
    using run r pb' row idx [of "stl g"] idx [of "stl (stl (stl g))"] dm dmv db dbv
    by (intro conjI) simp_all
  show ?thesis by (intro exI) (rule body)
qed

text \<open>
  C10. The random source is an explicit input, the stream of raw draws. Two runs from
  states with the same melody voice and the same bass voice, with the same magnitudes,
  whose streams agree on the first four draws (all that one cycle can consume) give the
  same result: the melody selector returns the same melody voice, the bass selector
  returns the same bass voice (or its table read is undefined in both runs), and a
  whole cycle returns the same pair of voices.
\<close>

theorem selectors_deterministic:
  assumes "melodyCurrentNote s = melodyCurrentNote t"
    and "bassCurrentNote s = bassCurrentNote t"
    and "stake 4 (rng s) = stake 4 (rng t)"
  shows "map_option melodyCurrentNote (defineMelodyNote totalAcc totalSpin s)
           = map_option melodyCurrentNote (defineMelodyNote totalAcc totalSpin t)
       \<and> defineMelodyNote totalAcc totalSpin s \<noteq> None
       \<and> map_option bassCurrentNote (defineBassNote totalAcc totalSpin s)
           = map_option bassCurrentNote (defineBassNote totalAcc totalSpin t)
       \<and> map_option melodyCurrentNote (playNote totalAcc totalSpin s)
           = map_option melodyCurrentNote (playNote totalAcc totalSpin t)
       \<and> map_option bassCurrentNote (playNote totalAcc totalSpin s)
           = map_option bassCurrentNote (playNote totalAcc totalSpin t)"
proof -
  note h = stake_4_heads [OF assms(3)]
  let ?R = "\<lambda>g. if float_lt totalSpin 3 \<or> float_gt totalSpin 4 then stl (stl g) else stl g"
  from defineMelodyNote_agree [OF assms(1) h(1,2), of totalAcc totalSpin]
  obtain nt where ms: "defineMelodyNote totalAcc totalSpin s =
        Some (s\<lparr> melodyCurrentNote := nt, rng := ?R (rng s) \<rparr>)"
    and mt: "defineMelodyNote totalAcc totalSpin t =
        Some (t\<lparr> melodyCurrentNote := nt, rng := ?R (rng t) \<rparr>)"
    by blast
  have melody: "map_option melodyCurrentNote (defineMelodyNote totalAcc totalSpin s)
           = map_option melodyCurrentNote (defineMelodyNote totalAcc totalSpin t)"
    by (simp add: ms mt)
  have returns: "defineMelodyNote totalAcc totalSpin s \<noteq> None"
    by (simp add: ms)
  have bass: "map_option bassCurrentNote (defineBassNote totalAcc totalSpin s)
           = map_option bassCurrentNote (defineBassNote totalAcc totalSpin t)"
    using defineBassNote_agree [of s t totalAcc totalSpin] assms(1,2) h(1,2) by auto
  let ?s1 = "s\<lparr> melodyCurrentNote := nt, rng := ?R (rng s) \<rparr>"
  let ?t1 = "t\<lparr> melodyCurrentNote := nt, rng := ?R (rng t) \<rparr>"
  have "shd (rng ?s1) = shd (rng ?t1)" "shd (stl (rng ?s1)) = shd (stl (rng ?t1))"
    using h by simp_all
  moreover have "pitch (melodyCurrentNote ?s1) = pitch (melodyCurrentNote ?t1)"
    "octave (bassCurrentNote ?s1) = octave (bassCurrentNote ?t1)"
    using assms(2) by simp_all
  ultimately have "(defineBassNote totalAcc totalSpin ?s1 = None
        \<and> defineBassNote totalAcc totalSpin ?t1 = None)
      \<or> (\<exists>b. defineBassNote totalAcc totalSpin ?s1 =
                  Some (?s1\<lparr> bassCurrentNote := b, rng := stl (stl (rng ?s1)) \<rparr>)
               \<and> defineBassNote totalAcc totalSpin ?t1 =
                  Some (?t1\<lparr> bassCurrentNote := b, rng := stl (stl (rng ?t1)) \<rparr>))"
    using defineBassNote_agree [of ?s1 ?t1 totalAcc totalSpin] by blast
  then have cycle: "map_option melodyCurrentNote (playNote totalAcc totalSpin s)
           = map_option melodyCurrentNote (playNote totalAcc totalSpin t)
       \<and> map_option bassCurrentNote (playNote totalAcc totalSpin s)
           = map_option bassCurrentNote (playNote totalAcc totalSpin t)"
    unfolding playNote_def ms mt by auto
  from melody returns bass cycle show ?thesis by simp
qed

theorem selectors_deterministic_witness:
  "stake 4 (rng (initial_state (1 ## 2 ## 3 ## 4 ## sconst 0)))
     = stake 4 (rng (initial_state (1 ## 2 ## 3 ## 4 ## sconst 9)))
   \<and> map_option melodyCurrentNote
        (playNote (Finite 4) (Finite 5) (initial_state (1 ## 2 ## 3 ## 4 ## sconst 0)))
     = map_option melodyCurrentNote
        (playNote (Finite 4) (Finite 5) (initial_state (1 ## 2 ## 3 ## 4 ## sconst 9)))
   \<and> map_option bassCurrentNote
        (playNote (Finite 4) (Finite 5) (initial_state (1 ## 2 ## 3 ## 4 ## sconst 0)))
     = map_option bassCurrentNote
        (playNote (Finite 4) (Finite 5) (initial_state (1 ## 2 ## 3 ## 4 ## sconst 9)))"
proof -
  have m: "melodyCurrentNote (initial_state (1 ## 2 ## 3 ## 4 ## sconst 0))
         = melodyCurrentNote (initial_state (1 ## 2 ## 3 ## 4 ## sconst 9))"
    and b: "bassCurrentNote (initial_state (1 ## 2 ## 3 ## 4 ## sconst 0))
         = bassCurrentNote (initial_state (1 ## 2 ## 3 ## 4 ## sconst 9))"
    by (simp_all add: initial_state_def)
  have g: "stake 4 (rng (initial_state (1 ## 2 ## 3 ## 4 ## sconst 0)))
         = stake 4 (rng (initial_state (1 ## 2 ## 3 ## 4 ## sconst 9)))"
    by (simp add: initial_state_def eval_nat_numeral)
  from selectors_deterministic [OF m b g, of "Finite 4" "Finite 5"] g
  show ?thesis by simp
qed

end
